theory Spec2Isabelle
  imports Complex_Main
begin

section \<open>JavaScript values, objects and Maps\<close>

text \<open>
  The world states of \<^verbatim>\<open>src/goap-planner.js\<close> hold primitive values. The model has
  \<^verbatim>\<open>undefined\<close>, \<^verbatim>\<open>null\<close>, booleans, integral numbers and strings; \<open>JNum n\<close> stands
  for the number \<open>n\<close> (a safe integer, so that arithmetic and printing are exact).
  On these values \<^verbatim>\<open>===\<close> is equality of the datatype.
\<close>

datatype jsval = JUndefined | JNull | JBool bool | JNum int | JStr string

fun falsy :: "jsval \<Rightarrow> bool" where
  "falsy JUndefined = True"
| "falsy JNull = True"
| "falsy (JBool b) = (\<not> b)"
| "falsy (JNum n) = (n = 0)"
| "falsy (JStr s) = (s = [])"

text \<open>\<^verbatim>\<open>a || b\<close>\<close>

definition js_or :: "jsval \<Rightarrow> jsval \<Rightarrow> jsval" where
  "js_or a b = (if falsy a then b else a)"

text \<open>
  A \<^verbatim>\<open>Map\<close> is the list of its entries in insertion order, an object the list of its own
  properties in creation order. \<^verbatim>\<open>Map.prototype.set\<close> and the definition of a property
  both overwrite an existing key where it stands and append a new one.
\<close>

type_synonym 'v jsmap = "(string \<times> 'v) list"
type_synonym jsobject = "(string \<times> jsval) list"

fun Map_set :: "string \<Rightarrow> 'v \<Rightarrow> 'v jsmap \<Rightarrow> 'v jsmap" where
  "Map_set k v [] = [(k, v)]"
| "Map_set k v ((k', v') # es) =
     (if k' = k then (k, v) # es else (k', v') # Map_set k v es)"

text \<open>\<^verbatim>\<open>Map.prototype.get\<close>: \<^verbatim>\<open>undefined\<close> for a key that is not there.\<close>

definition Map_get :: "jsval jsmap \<Rightarrow> string \<Rightarrow> jsval" where
  "Map_get m k = (case map_of m k of None \<Rightarrow> JUndefined | Some v \<Rightarrow> v)"

text \<open>
  The own keys of an object are enumerated with the array indices first, in ascending
  numeric order, then the other strings in creation order. An array index is the
  canonical decimal form of an integer below \<open>2^32 - 1\<close>.
\<close>

definition is_digit :: "char \<Rightarrow> bool" where
  "is_digit c = (48 \<le> (of_char c :: nat) \<and> (of_char c :: nat) \<le> 57)"

definition int_of_digits :: "string \<Rightarrow> int" where
  "int_of_digits s = foldl (\<lambda>n c. 10 * n + ((of_char c :: int) - 48)) 0 s"

definition is_array_index :: "string \<Rightarrow> bool" where
  "is_array_index s =
     (s \<noteq> [] \<and> list_all is_digit s \<and> (hd s \<noteq> CHR ''0'' \<or> length s = 1)
      \<and> int_of_digits s < 4294967295)"

definition Object_entries :: "jsobject \<Rightarrow> (string \<times> jsval) list" where
  "Object_entries obj =
     sort_key (\<lambda>e. int_of_digits (fst e)) (filter (\<lambda>e. is_array_index (fst e)) obj)
     @ filter (\<lambda>e. \<not> is_array_index (fst e)) obj"

definition Object_fromEntries :: "(string \<times> jsval) list \<Rightarrow> jsobject" where
  "Object_fromEntries es = foldl (\<lambda>obj (k, v). Map_set k v obj) [] es"

subsection \<open>\<^verbatim>\<open>JSON.stringify(obj, null, 2)\<close> on an object of primitives\<close>

definition hex_digit :: "nat \<Rightarrow> char" where
  "hex_digit n = (if n < 10 then char_of (48 + n) else char_of (87 + n))"

text \<open>\<^verbatim>\<open>Number.prototype.toString\<close> on an integer.\<close>

fun decimal :: "nat \<Rightarrow> string" where
  "decimal n = (if 10 \<le> n then decimal (n div 10) @ [hex_digit (n mod 10)] else [hex_digit n])"

definition Number_toString :: "int \<Rightarrow> string" where
  "Number_toString i = (if i < 0 then CHR ''-'' # decimal (nat (- i)) else decimal (nat i))"

text \<open>
  \<open>CHR 0x22\<close> is the double quote, \<open>CHR 0x5C\<close> the backslash. Control characters are
  escaped, all other characters are copied.
\<close>

definition quote_char :: "char \<Rightarrow> string" where
  "quote_char c =
     (if c = CHR 0x22 then [CHR 0x5C, CHR 0x22]
      else if c = CHR 0x5C then [CHR 0x5C, CHR 0x5C]
      else if c = CHR 0x08 then [CHR 0x5C, CHR ''b'']
      else if c = CHR 0x0C then [CHR 0x5C, CHR ''f'']
      else if c = CHR 0x0A then [CHR 0x5C, CHR ''n'']
      else if c = CHR 0x0D then [CHR 0x5C, CHR ''r'']
      else if c = CHR 0x09 then [CHR 0x5C, CHR ''t'']
      else if (of_char c :: nat) < 32 then
        [CHR 0x5C, CHR ''u'', CHR ''0'', CHR ''0'',
         hex_digit ((of_char c :: nat) div 16), hex_digit ((of_char c :: nat) mod 16)]
      else [c])"

definition JSON_quote :: "string \<Rightarrow> string" where
  "JSON_quote s = [CHR 0x22] @ concat (map quote_char s) @ [CHR 0x22]"

text \<open>A property whose value is \<^verbatim>\<open>undefined\<close> is left out of the output.\<close>

fun JSON_value :: "jsval \<Rightarrow> string option" where
  "JSON_value JUndefined = None"
| "JSON_value JNull = Some ''null''"
| "JSON_value (JBool b) = Some (if b then ''true'' else ''false'')"
| "JSON_value (JNum n) = Some (Number_toString n)"
| "JSON_value (JStr s) = Some (JSON_quote s)"

fun join :: "string \<Rightarrow> string list \<Rightarrow> string" where
  "join sep [] = []"
| "join sep [x] = x"
| "join sep (x # y # ys) = x @ sep @ join sep (y # ys)"

definition JSON_member :: "string \<times> jsval \<Rightarrow> string option" where
  "JSON_member e =
     (case JSON_value (snd e) of
        None \<Rightarrow> None
      | Some sv \<Rightarrow> Some (''  '' @ JSON_quote (fst e) @ '': '' @ sv))"

definition JSON_stringify :: "jsobject \<Rightarrow> string" where
  "JSON_stringify obj =
     (let members = List.map_filter JSON_member (Object_entries obj)
      in if members = [] then ''{}''
         else ''{'' @ [CHR 0x0A] @ join ('','' @ [CHR 0x0A]) members @ [CHR 0x0A] @ ''}'')"

section \<open>GOAPState\<close>

record GOAPState =
  state :: "jsval jsmap"

text \<open>\<^verbatim>\<open>new GOAPState(obj)\<close>: \<^verbatim>\<open>new Map(Object.entries(obj))\<close>.\<close>

definition GOAPState_new :: "jsobject \<Rightarrow> GOAPState" where
  "GOAPState_new obj = \<lparr>state = Object_entries obj\<rparr>"

definition clone :: "GOAPState \<Rightarrow> GOAPState" where
  "clone s = GOAPState_new (Object_fromEntries (state s))"

definition get :: "GOAPState \<Rightarrow> string \<Rightarrow> jsval" where
  "get s key = js_or (Map_get (state s) key) (JBool False)"

text \<open>
  \<^verbatim>\<open>set(key, value)\<close> writes into the Map of the receiver and returns nothing;
  \<open>set_entry s key value\<close> is the receiver after the call.
\<close>

definition set_entry :: "GOAPState \<Rightarrow> string \<Rightarrow> jsval \<Rightarrow> GOAPState" where
  "set_entry s key value = s\<lparr>state := Map_set key value (state s)\<rparr>"

definition satisfies :: "GOAPState \<Rightarrow> jsobject \<Rightarrow> bool" where
  "satisfies s conditions =
     list_all (\<lambda>(key, value). get s key = value) (Object_entries conditions)"

definition applyEffects :: "GOAPState \<Rightarrow> jsobject \<Rightarrow> GOAPState" where
  "applyEffects s effs =
     foldl (\<lambda>newState (key, value). set_entry newState key value) (clone s)
       (Object_entries effs)"

definition getDistance :: "GOAPState \<Rightarrow> GOAPState \<Rightarrow> int" where
  "getDistance s goalState =
     foldl (\<lambda>distance (key, value). if get s key \<noteq> value then distance + 1 else distance)
       0 (state goalState)"

definition toString :: "GOAPState \<Rightarrow> string" where
  "toString s = JSON_stringify (Object_fromEntries (state s))"

section \<open>GOAPAction\<close>

record GOAPAction =
  name :: string
  preconditions :: jsobject
  effects :: jsobject
  cost :: int
  executionType :: string

datatype error = Error string | TypeError string

definition isApplicable :: "GOAPAction \<Rightarrow> GOAPState \<Rightarrow> bool" where
  "isApplicable a s = satisfies s (preconditions a)"

definition apply_action :: "GOAPAction \<Rightarrow> GOAPState \<Rightarrow> error + GOAPState" where
  "apply_action a s =
     (if \<not> isApplicable a s
      then Inl (Error (''Action '' @ name a @ '' not applicable in current state''))
      else Inr (applyEffects s (effects a)))"

section \<open>GOAPNode\<close>

text \<open>
  A node carries its state, the action that produced it together with its parent
  (\<open>None\<close> for the root, whose \<^verbatim>\<open>action\<close> and \<^verbatim>\<open>parent\<close> are both \<^verbatim>\<open>null\<close>), the path
  cost, the heuristic and the total cost.
\<close>

datatype GOAPNode =
  GOAPNode (node_state: GOAPState) (node_link: "(GOAPAction \<times> GOAPNode) option")
    (node_cost: int) (node_heuristic: int) (node_totalCost: int)

fun getPath :: "GOAPNode \<Rightarrow> GOAPAction list" where
  "getPath (GOAPNode s None c h t) = []"
| "getPath (GOAPNode s (Some (a, p)) c h t) = getPath p @ [a]"

section \<open>GOAPPlanner\<close>

record GOAPPlanner =
  actions :: "GOAPAction jsmap"
  maxSearchDepth :: int

definition GOAPPlanner_new :: GOAPPlanner where
  "GOAPPlanner_new = \<lparr>actions = [], maxSearchDepth = 20\<rparr>"

definition addAction :: "GOAPPlanner \<Rightarrow> GOAPAction \<Rightarrow> GOAPPlanner" where
  "addAction P a = P\<lparr>actions := Map_set (name a) a (actions P)\<rparr>"

definition maxIterations :: nat where
  "maxIterations = 1000"

text \<open>
  The \<^verbatim>\<open>for\<close> loop of \<^verbatim>\<open>generatePlan\<close> over \<^verbatim>\<open>this.actions.values()\<close>, pushing the
  successors of \<open>currentNode\<close> on the open set. An exception of \<^verbatim>\<open>action.apply\<close> would
  leave the loop.
\<close>

fun explore ::
  "GOAPPlanner \<Rightarrow> GOAPState \<Rightarrow> GOAPNode \<Rightarrow> GOAPAction list \<Rightarrow> GOAPNode list
   \<Rightarrow> error + GOAPNode list" where
  "explore P goalState currentNode [] openSet = Inr openSet"
| "explore P goalState currentNode (action # rest) openSet =
     (if isApplicable action (node_state currentNode) then
        (case apply_action action (node_state currentNode) of
           Inl e \<Rightarrow> Inl e
         | Inr newState \<Rightarrow>
             (let newCost = node_cost currentNode + cost action in
              if newCost > maxSearchDepth P then explore P goalState currentNode rest openSet
              else
                (let h = getDistance newState goalState;
                     newNode = GOAPNode newState (Some (action, currentNode)) newCost h (newCost + h)
                 in explore P goalState currentNode rest (openSet @ [newNode]))))
      else explore P goalState currentNode rest openSet)"

text \<open>The \<^verbatim>\<open>while\<close> loop: the open set, the closed set and the iteration counter.\<close>

function search ::
  "GOAPPlanner \<Rightarrow> GOAPState \<Rightarrow> GOAPNode list \<Rightarrow> string set \<Rightarrow> nat
   \<Rightarrow> error + GOAPAction list option" where
  "search P goalState openSet closedSet iterations =
     (if openSet \<noteq> [] \<and> iterations < maxIterations then
        (let sorted = sort_key node_totalCost openSet;
             currentNode = hd sorted;
             openSet' = tl sorted
         in if satisfies (node_state currentNode) (Object_fromEntries (state goalState))
            then Inr (Some (getPath currentNode))
            else
              (let stateKey = toString (node_state currentNode) in
               if stateKey \<in> closedSet
               then search P goalState openSet' closedSet (iterations + 1)
               else
                 (case explore P goalState currentNode (map snd (actions P)) openSet' of
                    Inl e \<Rightarrow> Inl e
                  | Inr openSet'' \<Rightarrow>
                      search P goalState openSet'' (insert stateKey closedSet) (iterations + 1))))
      else Inr None)"
  by pat_completeness auto
termination
  by (relation "measure (\<lambda>(P, goalState, openSet, closedSet, iterations). maxIterations - iterations)")
     auto

definition generatePlan ::
  "GOAPPlanner \<Rightarrow> GOAPState \<Rightarrow> GOAPState \<Rightarrow> error + GOAPAction list option" where
  "generatePlan P currentState goalState =
     (let h = getDistance currentState goalState;
          startNode = GOAPNode currentState None 0 h h
      in search P goalState [startNode] {} 0)"


subsection \<open>Plan analysis\<close>

record PlanAnalysis =
  totalCost :: int
  actionCount :: nat
  executionTypes :: "string list"
  parallelizable :: "GOAPAction list list"
  estimatedTime :: int

definition Object_keys :: "jsobject \<Rightarrow> string list" where
  "Object_keys obj = map fst (Object_entries obj)"

definition canRunInParallel :: "GOAPAction \<Rightarrow> GOAPAction \<Rightarrow> bool" where
  "canRunInParallel action1 action2 =
     (let effects1 = Object_keys (effects action1);
          effects2 = Object_keys (effects action2);
          preconditions1 = Object_keys (preconditions action1);
          preconditions2 = Object_keys (preconditions action2)
      in \<not> list_ex (\<lambda>key. key \<in> set preconditions2) effects1
         \<and> \<not> list_ex (\<lambda>key. key \<in> set preconditions1) effects2
         \<and> \<not> list_ex (\<lambda>key. key \<in> set effects2) effects1)"

text \<open>The \<^verbatim>\<open>for\<close> loop of \<^verbatim>\<open>findParallelizableActions\<close> and the push after it.\<close>

fun parallel_groups ::
  "GOAPAction list \<Rightarrow> GOAPAction list list \<Rightarrow> GOAPAction list \<Rightarrow> GOAPAction list list" where
  "parallel_groups [] parallelGroups currentGroup =
     (if length currentGroup > 1 then parallelGroups @ [currentGroup] else parallelGroups)"
| "parallel_groups (action # rest) parallelGroups currentGroup =
     (let canParallelize =
            list_all (\<lambda>groupAction. canRunInParallel action groupAction) currentGroup
      in if canParallelize \<and> length currentGroup < 3
         then parallel_groups rest parallelGroups (currentGroup @ [action])
         else parallel_groups rest
                (if length currentGroup > 1 then parallelGroups @ [currentGroup]
                 else parallelGroups)
                [action])"

definition findParallelizableActions :: "GOAPAction list \<Rightarrow> GOAPAction list list" where
  "findParallelizableActions plan = parallel_groups plan [] []"

text \<open>
  The table \<^verbatim>\<open>baseTime\<close> of \<^verbatim>\<open>estimateExecutionTime\<close>, and the duration that one
  action adds: \<^verbatim>\<open>baseTime[action.executionType] || 100\<close>. (A tag that names an inherited
  property of the table object, such as \<^verbatim>\<open>constructor\<close>, is outside the model.)
\<close>

definition baseTime :: "string \<Rightarrow> int option" where
  "baseTime t =
     (if t = ''code'' then Some 100
      else if t = ''llm'' then Some 200
      else if t = ''hybrid'' then Some 250
      else None)"

definition duration :: "string \<Rightarrow> int" where
  "duration t = (case baseTime t of None \<Rightarrow> 100 | Some n \<Rightarrow> if n = 0 then 100 else n)"

definition estimateExecutionTime :: "GOAPAction list \<Rightarrow> int" where
  "estimateExecutionTime plan =
     foldl (\<lambda>total action. total + duration (executionType action)) 0 plan"

definition analyzePlan :: "GOAPPlanner \<Rightarrow> GOAPAction list \<Rightarrow> PlanAnalysis" where
  "analyzePlan P plan =
     \<lparr>totalCost = foldl (\<lambda>sum action. sum + cost action) 0 plan,
      actionCount = length plan,
      executionTypes = map executionType plan,
      parallelizable = findParallelizableActions plan,
      estimatedTime = estimateExecutionTime plan\<rparr>"


section \<open>World states as objects in a store\<close>

text \<open>
  Above, a world state is the value of its Map, which is all that a function reading
  states can see. A \<^verbatim>\<open>GOAPState\<close> is an object, though: \<^verbatim>\<open>set\<close> writes into the
  receiver, and every holder of a reference sees the write. The store maps the
  reference of each world state to its value; \<open>next_ref\<close> is the first reference not
  yet allocated.
\<close>

type_synonym ref = nat

record store =
  cells :: "ref \<Rightarrow> GOAPState"
  next_ref :: ref

text \<open>\<^verbatim>\<open>new GOAPState(obj)\<close>\<close>

definition st_new :: "store \<Rightarrow> jsobject \<Rightarrow> store \<times> ref" where
  "st_new st obj =
     (st\<lparr>cells := (cells st)(next_ref st := GOAPState_new obj), next_ref := Suc (next_ref st)\<rparr>,
      next_ref st)"

definition st_clone :: "store \<Rightarrow> ref \<Rightarrow> store \<times> ref" where
  "st_clone st r = st_new st (Object_fromEntries (state (cells st r)))"

definition st_get :: "store \<Rightarrow> ref \<Rightarrow> string \<Rightarrow> jsval" where
  "st_get st r key = js_or (Map_get (state (cells st r)) key) (JBool False)"

text \<open>\<^verbatim>\<open>set\<close> has no return value: the store after the call is all there is.\<close>

definition st_set :: "store \<Rightarrow> ref \<Rightarrow> string \<Rightarrow> jsval \<Rightarrow> store" where
  "st_set st r key value =
     st\<lparr>cells := (cells st)(r := (cells st r)\<lparr>state := Map_set key value (state (cells st r))\<rparr>)\<rparr>"

definition st_satisfies :: "store \<Rightarrow> ref \<Rightarrow> jsobject \<Rightarrow> bool" where
  "st_satisfies st r conditions =
     list_all (\<lambda>(key, value). st_get st r key = value) (Object_entries conditions)"

definition st_applyEffects :: "store \<Rightarrow> ref \<Rightarrow> jsobject \<Rightarrow> store \<times> ref" where
  "st_applyEffects st r effs =
     (let (st1, newState) = st_clone st r
      in (foldl (\<lambda>st' (key, value). st_set st' newState key value) st1 (Object_entries effs),
          newState))"

definition st_getDistance :: "store \<Rightarrow> ref \<Rightarrow> ref \<Rightarrow> int" where
  "st_getDistance st r goalState =
     foldl (\<lambda>distance (key, value). if st_get st r key \<noteq> value then distance + 1 else distance)
       0 (state (cells st goalState))"

definition st_toString :: "store \<Rightarrow> ref \<Rightarrow> string" where
  "st_toString st r = JSON_stringify (Object_fromEntries (state (cells st r)))"

definition st_isApplicable :: "store \<Rightarrow> GOAPAction \<Rightarrow> ref \<Rightarrow> bool" where
  "st_isApplicable st a r = st_satisfies st r (preconditions a)"

definition st_apply_action :: "store \<Rightarrow> GOAPAction \<Rightarrow> ref \<Rightarrow> error + store \<times> ref" where
  "st_apply_action st a r =
     (if \<not> st_isApplicable st a r
      then Inl (Error (''Action '' @ name a @ '' not applicable in current state''))
      else Inr (st_applyEffects st r (effects a)))"

text \<open>A search node holds a reference to its state.\<close>

datatype RefNode =
  RefNode (rn_state: ref) (rn_link: "(GOAPAction \<times> RefNode) option")
    (rn_cost: int) (rn_heuristic: int) (rn_totalCost: int)

fun rn_getPath :: "RefNode \<Rightarrow> GOAPAction list" where
  "rn_getPath (RefNode s None c h t) = []"
| "rn_getPath (RefNode s (Some (a, p)) c h t) = rn_getPath p @ [a]"

fun st_explore ::
  "GOAPPlanner \<Rightarrow> ref \<Rightarrow> RefNode \<Rightarrow> GOAPAction list \<Rightarrow> store \<Rightarrow> RefNode list
   \<Rightarrow> store \<times> (error + RefNode list)" where
  "st_explore P goalState currentNode [] st openSet = (st, Inr openSet)"
| "st_explore P goalState currentNode (action # rest) st openSet =
     (if st_isApplicable st action (rn_state currentNode) then
        (case st_apply_action st action (rn_state currentNode) of
           Inl e \<Rightarrow> (st, Inl e)
         | Inr (st', newState) \<Rightarrow>
             (let newCost = rn_cost currentNode + cost action in
              if newCost > maxSearchDepth P then st_explore P goalState currentNode rest st' openSet
              else
                (let h = st_getDistance st' newState goalState;
                     newNode = RefNode newState (Some (action, currentNode)) newCost h (newCost + h)
                 in st_explore P goalState currentNode rest st' (openSet @ [newNode]))))
      else st_explore P goalState currentNode rest st openSet)"

function st_search ::
  "GOAPPlanner \<Rightarrow> ref \<Rightarrow> store \<Rightarrow> RefNode list \<Rightarrow> string set \<Rightarrow> nat
   \<Rightarrow> store \<times> (error + GOAPAction list option)" where
  "st_search P goalState st openSet closedSet iterations =
     (if openSet \<noteq> [] \<and> iterations < maxIterations then
        (let sorted = sort_key rn_totalCost openSet;
             currentNode = hd sorted;
             openSet' = tl sorted
         in if st_satisfies st (rn_state currentNode)
                 (Object_fromEntries (state (cells st goalState)))
            then (st, Inr (Some (rn_getPath currentNode)))
            else
              (let stateKey = st_toString st (rn_state currentNode) in
               if stateKey \<in> closedSet
               then st_search P goalState st openSet' closedSet (iterations + 1)
               else
                 (case st_explore P goalState currentNode (map snd (actions P)) st openSet' of
                    (st', Inl e) \<Rightarrow> (st', Inl e)
                  | (st', Inr openSet'') \<Rightarrow>
                      st_search P goalState st' openSet'' (insert stateKey closedSet)
                        (iterations + 1))))
      else (st, Inr None))"
  by pat_completeness auto
termination
  by (relation "measure (\<lambda>(P, goalState, st, openSet, closedSet, iterations).
        maxIterations - iterations)") auto

definition st_generatePlan ::
  "GOAPPlanner \<Rightarrow> store \<Rightarrow> ref \<Rightarrow> ref \<Rightarrow> store \<times> (error + GOAPAction list option)" where
  "st_generatePlan P st currentState goalState =
     (let h = st_getDistance st currentState goalState;
          startNode = RefNode currentState None 0 h h
      in st_search P goalState st [startNode] {} 0)"

section \<open>Executing an action\<close>

text \<open>
  \<^verbatim>\<open>execute\<close> dispatches on the execution type. The three executors return a result
  object; the delays and the console output are not modelled. An unknown type throws.
\<close>

datatype ExecResult =
  ResultCode
| ResultLLM string
| ResultHybrid ExecResult ExecResult

definition executeCode :: "GOAPAction \<Rightarrow> ExecResult" where
  "executeCode a = ResultCode"

definition executeLLM :: "GOAPAction \<Rightarrow> ExecResult" where
  "executeLLM a = ResultLLM (''Generated insights for '' @ name a)"

definition executeHybrid :: "GOAPAction \<Rightarrow> ExecResult" where
  "executeHybrid a =
     (let llmResult = executeLLM a; codeResult = executeCode a
      in ResultHybrid llmResult codeResult)"

definition execute :: "GOAPAction \<Rightarrow> error + ExecResult" where
  "execute a =
     (if executionType a = ''code'' then Inr (executeCode a)
      else if executionType a = ''llm'' then Inr (executeLLM a)
      else if executionType a = ''hybrid'' then Inr (executeHybrid a)
      else Inl (Error (''Unknown execution type: '' @ executionType a)))"

definition message :: "error \<Rightarrow> string" where
  "message e = (case e of Error m \<Rightarrow> m | TypeError m \<Rightarrow> m)"

section \<open>OODALoop\<close>

text \<open>
  A history entry has a step (a number, or \<^verbatim>\<open>'replan'\<close>), an action name, and a result,
  an error message or the names of a new plan. The loop is modelled from the moment its
  caller has assigned \<^verbatim>\<open>worldState\<close> and \<^verbatim>\<open>goalState\<close>; \<^verbatim>\<open>currentPlan\<close> may be
  \<^verbatim>\<open>null\<close>. The timestamp of an entry and the number that \<^verbatim>\<open>Math.random()\<close> returns are
  arguments of the functions that read them.
\<close>

datatype StepTag = StepIndex nat | StepReplan

record HistoryEntry =
  h_step :: StepTag
  h_action :: string
  h_result :: "ExecResult option"
  h_error :: "string option"
  h_newPlan :: "string list option"
  h_timestamp :: string

record OODALoop =
  planner :: GOAPPlanner
  currentPlan :: "GOAPAction list option"
  currentStep :: nat
  worldState :: GOAPState
  goalState :: GOAPState
  executionHistory :: "HistoryEntry list"
  monitoring :: bool

record Observations =
  o_currentState :: GOAPState
  planProgress :: nat
  totalSteps :: nat
  lastAction :: "HistoryEntry option"
  anomalies :: "string list"

record Analysis =
  stateChanged :: bool
  planValid :: bool
  goalReachable :: bool
  needsReplanning :: bool

record Decision =
  d_action :: string
  d_reason :: string

text \<open>\<^verbatim>\<open>if (lastExecution.error)\<close>: the property is there and is not the empty string.\<close>

definition detectAnomalies :: "OODALoop \<Rightarrow> string list" where
  "detectAnomalies L =
     (if length (executionHistory L) > 0 then
        (let lastExecution = last (executionHistory L) in
         case h_error lastExecution of
           None \<Rightarrow> []
         | Some m \<Rightarrow> if m = [] then [] else [''Action failure: '' @ h_action lastExecution])
      else [])"

definition observe :: "OODALoop \<Rightarrow> Observations" where
  "observe L =
     \<lparr>o_currentState = clone (worldState L),
      planProgress = currentStep L,
      totalSteps = (case currentPlan L of None \<Rightarrow> 0 | Some plan \<Rightarrow> length plan),
      lastAction = (if executionHistory L = [] then None else Some (last (executionHistory L))),
      anomalies = detectAnomalies L\<rparr>"

definition hasStateChangedUnexpectedly :: "OODALoop \<Rightarrow> Observations \<Rightarrow> real \<Rightarrow> bool" where
  "hasStateChangedUnexpectedly L observations random =
     (if currentStep L = 0 then False else random < 0.1)"

definition isPlanStillValid :: "OODALoop \<Rightarrow> bool" where
  "isPlanStillValid L =
     (case currentPlan L of
        None \<Rightarrow> False
      | Some plan \<Rightarrow>
          if currentStep L \<ge> length plan then False
          else list_all (\<lambda>action. isApplicable action (worldState L)) (drop (currentStep L) plan))"

definition isGoalStillReachable :: "OODALoop \<Rightarrow> error + bool" where
  "isGoalStillReachable L =
     (case generatePlan (planner L) (worldState L) (goalState L) of
        Inl e \<Rightarrow> Inl e
      | Inr testPlan \<Rightarrow> Inr (testPlan \<noteq> None))"

definition orient :: "OODALoop \<Rightarrow> Observations \<Rightarrow> real \<Rightarrow> error + Analysis" where
  "orient L observations random =
     (let changed = hasStateChangedUnexpectedly L observations random;
          valid = isPlanStillValid L
      in case isGoalStillReachable L of
           Inl e \<Rightarrow> Inl e
         | Inr reachable \<Rightarrow>
             Inr \<lparr>stateChanged = changed, planValid = valid, goalReachable = reachable,
                  needsReplanning =
                    (changed \<or> \<not> valid \<or> \<not> reachable \<or> length (anomalies observations) > 0)\<rparr>)"

text \<open>\<^verbatim>\<open>this.currentPlan.length\<close> on \<^verbatim>\<open>null\<close> is a TypeError.\<close>

definition decide :: "OODALoop \<Rightarrow> Analysis \<Rightarrow> error + Decision" where
  "decide L analysis =
     (if needsReplanning analysis then
        Inr \<lparr>d_action = ''replan'', d_reason = ''Conditions changed, replanning required''\<rparr>
      else
        (case currentPlan L of
           None \<Rightarrow> Inl (TypeError ''Cannot read properties of null'')
         | Some plan \<Rightarrow>
             if currentStep L \<ge> length plan then
               Inr \<lparr>d_action = ''complete'', d_reason = ''All actions completed''\<rparr>
             else
               Inr \<lparr>d_action = ''continue'', d_reason = ''Plan execution proceeding normally''\<rparr>))"

definition executeNextAction :: "OODALoop \<Rightarrow> string \<Rightarrow> error + OODALoop" where
  "executeNextAction L now =
     (case currentPlan L of
        None \<Rightarrow> Inl (TypeError ''Cannot read properties of null'')
      | Some plan \<Rightarrow>
          if currentStep L \<ge> length plan then Inr L
          else
            (let action = plan ! currentStep L;
                 failed = (\<lambda>e.
                   L\<lparr>executionHistory := executionHistory L @
                      [\<lparr>h_step = StepIndex (currentStep L), h_action = name action,
                        h_result = None, h_error = Some (message e), h_newPlan = None,
                        h_timestamp = now\<rparr>]\<rparr>)
             in case execute action of
                  Inl e \<Rightarrow> Inr (failed e)
                | Inr result \<Rightarrow>
                    (case apply_action action (worldState L) of
                       Inl e \<Rightarrow> Inr (failed e)
                     | Inr newWorld \<Rightarrow>
                         Inr (L\<lparr>worldState := newWorld,
                                executionHistory := executionHistory L @
                                  [\<lparr>h_step = StepIndex (currentStep L), h_action = name action,
                                    h_result = Some result, h_error = None, h_newPlan = None,
                                    h_timestamp = now\<rparr>],
                                currentStep := currentStep L + 1\<rparr>))))"

definition replan :: "OODALoop \<Rightarrow> string \<Rightarrow> error + OODALoop" where
  "replan L now =
     (case generatePlan (planner L) (worldState L) (goalState L) of
        Inl e \<Rightarrow> Inl e
      | Inr None \<Rightarrow> Inr (L\<lparr>monitoring := False\<rparr>)
      | Inr (Some newPlan) \<Rightarrow>
          Inr (L\<lparr>currentPlan := Some newPlan,
                 currentStep := 0,
                 executionHistory := executionHistory L @
                   [\<lparr>h_step = StepReplan, h_action = ''plan_updated'', h_result = None,
                     h_error = None, h_newPlan = Some (map name newPlan),
                     h_timestamp = now\<rparr>]\<rparr>))"

definition act :: "OODALoop \<Rightarrow> Decision \<Rightarrow> string \<Rightarrow> error + OODALoop" where
  "act L decision now =
     (if d_action decision = ''replan'' then replan L now
      else if d_action decision = ''continue'' then executeNextAction L now
      else if d_action decision = ''complete'' then Inr (L\<lparr>monitoring := False\<rparr>)
      else Inr L)"

text \<open>One pass of the body of the \<^verbatim>\<open>while\<close> loop of \<^verbatim>\<open>runOODALoop\<close>.\<close>

definition cycle :: "OODALoop \<Rightarrow> real \<Rightarrow> string \<Rightarrow> error + OODALoop" where
  "cycle L random now =
     (let observations = observe L in
      case orient L observations random of
        Inl e \<Rightarrow> Inl e
      | Inr analysis \<Rightarrow>
          (case decide L analysis of
             Inl e \<Rightarrow> Inl e
           | Inr decision \<Rightarrow> act L decision now))"

text \<open>
  \<^verbatim>\<open>runOODALoop\<close> on the list of the random numbers and timestamps that its cycles
  draw: \<open>None\<close> when the loop is still monitoring after the last of them.
\<close>

fun ooda_cycles :: "OODALoop \<Rightarrow> (real \<times> string) list \<Rightarrow> (error + OODALoop) option" where
  "ooda_cycles L inputs =
     (if \<not> monitoring L then Some (Inr L)
      else
        (case inputs of
           [] \<Rightarrow> None
         | (random, now) # rest \<Rightarrow>
             (case cycle L random now of
                Inl e \<Rightarrow> Some (Inl e)
              | Inr L' \<Rightarrow> ooda_cycles L' rest)))"

definition runOODALoop :: "OODALoop \<Rightarrow> (real \<times> string) list \<Rightarrow> (error + OODALoop) option" where
  "runOODALoop L inputs = ooda_cycles (L\<lparr>monitoring := True\<rparr>) inputs"



section \<open>Plans and scenarios\<close>

text \<open>The state that a list of actions leads to: their effects applied in order.\<close>

definition run_plan :: "GOAPState \<Rightarrow> GOAPAction list \<Rightarrow> GOAPState" where
  "run_plan s plan = foldl (\<lambda>s' a. applyEffects s' (effects a)) s plan"

text \<open>
  A list of actions stays within the caps of the planner \<open>P\<close> from the state \<open>s\<close> at the
  accumulated cost \<open>c\<close>: each action is in the repertoire and applicable where it is
  taken, and the cost accumulated with it does not exceed \<open>maxSearchDepth\<close>.
\<close>

fun within_caps :: "GOAPPlanner \<Rightarrow> GOAPState \<Rightarrow> int \<Rightarrow> GOAPAction list \<Rightarrow> bool" where
  "within_caps P s c [] = True"
| "within_caps P s c (a # as) =
     (a \<in> set (map snd (actions P)) \<and> isApplicable a s \<and> c + cost a \<le> maxSearchDepth P
      \<and> within_caps P (applyEffects s (effects a)) (c + cost a) as)"

definition achieves :: "GOAPPlanner \<Rightarrow> GOAPState \<Rightarrow> GOAPState \<Rightarrow> GOAPAction list \<Rightarrow> bool" where
  "achieves P start goal plan =
     (within_caps P start 0 plan
      \<and> satisfies (run_plan start plan) (Object_fromEntries (state goal)))"

text \<open>What the search keeps true of every node of the open set.\<close>

definition node_inv :: "GOAPPlanner \<Rightarrow> GOAPState \<Rightarrow> GOAPNode \<Rightarrow> bool" where
  "node_inv P start n =
     (node_state n = run_plan start (getPath n)
      \<and> node_cost n = sum_list (map cost (getPath n))
      \<and> within_caps P start 0 (getPath n))"

text \<open>The actions of the scenarios: a linear chain, and a cheaper last step.\<close>

definition act_create :: GOAPAction where
  "act_create = \<lparr>name = ''create'', preconditions = [],
     effects = [(''exists'', JBool True)], cost = 1, executionType = ''code''\<rparr>"

definition act_code :: GOAPAction where
  "act_code = \<lparr>name = ''code'', preconditions = [(''exists'', JBool True)],
     effects = [(''coded'', JBool True)], cost = 3, executionType = ''code''\<rparr>"

definition act_deploy :: GOAPAction where
  "act_deploy = \<lparr>name = ''deploy'', preconditions = [(''coded'', JBool True)],
     effects = [(''deployed'', JBool True)], cost = 2, executionType = ''code''\<rparr>"

definition act_quickdeploy :: GOAPAction where
  "act_quickdeploy = \<lparr>name = ''quickdeploy'', preconditions = [(''coded'', JBool True)],
     effects = [(''deployed'', JBool True)], cost = 1, executionType = ''code''\<rparr>"

definition scenarioA :: GOAPPlanner where
  "scenarioA = addAction (addAction (addAction GOAPPlanner_new act_create) act_code) act_deploy"

definition scenarioB :: GOAPPlanner where
  "scenarioB = addAction scenarioA act_quickdeploy"

definition empty_state :: GOAPState where
  "empty_state = GOAPState_new []"

definition deployed_goal :: GOAPState where
  "deployed_goal = GOAPState_new [(''deployed'', JBool True)]"

text \<open>
  The planner after registering a list of actions in order, and all the orders in which
  a list can be written.
\<close>

definition register :: "GOAPAction list \<Rightarrow> GOAPPlanner" where
  "register order = foldl addAction GOAPPlanner_new order"

fun insert_everywhere :: "'a \<Rightarrow> 'a list \<Rightarrow> 'a list list" where
  "insert_everywhere x [] = [[x]]"
| "insert_everywhere x (y # ys) = (x # y # ys) # map ((#) y) (insert_everywhere x ys)"

fun orders :: "'a list \<Rightarrow> 'a list list" where
  "orders [] = [[]]"
| "orders (x # xs) = concat (map (insert_everywhere x) (orders xs))"





definition act_unknown :: GOAPAction where
  "act_unknown = \<lparr>name = ''launch'', preconditions = [], effects = [(''launched'', JBool True)],
     cost = 1, executionType = ''manual''\<rparr>"

definition exists_goal :: GOAPState where
  "exists_goal = GOAPState_new [(''exists'', JBool True)]"

text \<open>
  A loop set up with the one-step plan for \<open>exists_goal\<close>, and the same loop once the
  step has been executed with success.
\<close>

definition starting_loop :: OODALoop where
  "starting_loop =
     \<lparr>planner = scenarioA, currentPlan = Some [act_create], currentStep = 0,
      worldState = empty_state, goalState = exists_goal,
      executionHistory = [], monitoring = True\<rparr>"

definition finished_loop :: OODALoop where
  "finished_loop =
     \<lparr>planner = scenarioA, currentPlan = Some [act_create], currentStep = 1,
      worldState = applyEffects empty_state (effects act_create), goalState = exists_goal,
      executionHistory =
        [\<lparr>h_step = StepIndex 0, h_action = ''create'', h_result = Some ResultCode,
          h_error = None, h_newPlan = None, h_timestamp = ''2025-01-01T00:00:00.000Z''\<rparr>],
      monitoring = True\<rparr>"

text \<open>A loop about to execute an action of an unknown execution type.\<close>

definition failing_loop :: OODALoop where
  "failing_loop =
     \<lparr>planner = scenarioA, currentPlan = Some [act_unknown], currentStep = 0,
      worldState = empty_state, goalState = deployed_goal,
      executionHistory = [], monitoring = True\<rparr>"

text \<open>
  The store \<open>st'\<close> extends \<open>st\<close>: every object of \<open>st\<close> is in \<open>st'\<close> with the value it
  had.
\<close>

definition frame :: "store \<Rightarrow> store \<Rightarrow> bool" where
  "frame st st' =
     (next_ref st \<le> next_ref st' \<and> (\<forall>r. r < next_ref st \<longrightarrow> cells st' r = cells st r))"

text \<open>The node of values that a node of references stands for, and where its references lie.\<close>

fun abs_node :: "store \<Rightarrow> RefNode \<Rightarrow> GOAPNode" where
  "abs_node st (RefNode r None c h t) = GOAPNode (cells st r) None c h t"
| "abs_node st (RefNode r (Some (a, p)) c h t) =
     GOAPNode (cells st r) (Some (a, abs_node st p)) c h t"

fun refs_below :: "ref \<Rightarrow> RefNode \<Rightarrow> bool" where
  "refs_below n (RefNode r None c h t) = (r < n)"
| "refs_below n (RefNode r (Some (a, p)) c h t) = (r < n \<and> refs_below n p)"

text \<open>A store of two world states: the empty state at 0 and the goal \<open>deployed\<close> at 1.\<close>

definition two_states :: store where
  "two_states = \<lparr>cells = (\<lambda>r. if r = 1 then deployed_goal else empty_state), next_ref = 2\<rparr>"





section \<open>Maps, objects and world states\<close>
























section \<open>The search returns valid plans\<close>

declare search.simps [simp del]

lemma run_plan_snoc: "run_plan s (p @ [a]) = applyEffects (run_plan s p) (effects a)"
  by (simp add: run_plan_def)

lemma within_caps_snoc:
  "within_caps P s c (p @ [a]) =
     (within_caps P s c p \<and> a \<in> set (map snd (actions P)) \<and> isApplicable a (run_plan s p)
      \<and> c + sum_list (map cost p) + cost a \<le> maxSearchDepth P)"
  by (induction p arbitrary: s c) (auto simp: run_plan_def add.assoc)

lemma explore_no_error: "\<exists>os'. explore P g cur as os = Inr os'"
  by (induction as arbitrary: os) (auto simp: apply_action_def Let_def)

lemma explore_inv:
  assumes "explore P g cur as os = Inr os'"
    and "node_inv P start cur"
    and "\<forall>n\<in>set os. node_inv P start n"
    and "set as \<subseteq> set (map snd (actions P))"
  shows "\<forall>n\<in>set os'. node_inv P start n"
  using assms
proof (induction as arbitrary: os)
  case Nil
  then show ?case by simp
next
  case (Cons a as)
  show ?case
  proof (cases "isApplicable a (node_state cur) \<and> node_cost cur + cost a \<le> maxSearchDepth P")
    case False
    with Cons.prems have "explore P g cur as os = Inr os'"
      by (auto simp: apply_action_def Let_def split: if_splits)
    with Cons show ?thesis by simp
  next
    case True
    define newState where "newState = applyEffects (node_state cur) (effects a)"
    define newCost where "newCost = node_cost cur + cost a"
    define newNode where
      "newNode = GOAPNode newState (Some (a, cur)) newCost (getDistance newState g)
                   (newCost + getDistance newState g)"
    from True Cons.prems(1) have step: "explore P g cur as (os @ [newNode]) = Inr os'"
      by (simp add: apply_action_def Let_def newNode_def newState_def newCost_def)
    have "a \<in> set (map snd (actions P))"
      using Cons.prems(4) by auto
    with True Cons.prems(2) have "node_inv P start newNode"
      by (simp add: node_inv_def newNode_def newState_def newCost_def run_plan_snoc
          within_caps_snoc)
    with Cons.prems(3) have "\<forall>n\<in>set (os @ [newNode]). node_inv P start n"
      by auto
    with Cons.IH [OF step Cons.prems(2)] Cons.prems(4) show ?thesis
      by simp
  qed
qed

lemma search_no_error: "\<exists>r. search P g os cs it = Inr r"
proof (induction P g os cs it rule: search.induct)
  case (1 P g os cs it)
  let ?cur = "hd (sort_key node_totalCost os)"
  let ?rest = "tl (sort_key node_totalCost os)"
  let ?key = "toString (node_state ?cur)"
  show ?case
  proof (cases "os \<noteq> [] \<and> it < maxIterations")
    case False
    then show ?thesis
      by (auto simp: search.simps [of P g os cs it])
  next
    case guard: True
    show ?thesis
    proof (cases "satisfies (node_state ?cur) (Object_fromEntries (state g))")
      case True
      with guard show ?thesis
        by (simp add: search.simps [of P g os cs it] Let_def)
    next
      case unsat: False
      show ?thesis
      proof (cases "?key \<in> cs")
        case True
        from "1.IH"(1) [OF guard refl refl refl unsat refl True] guard unsat True
        show ?thesis
          by (simp add: search.simps [of P g os cs it] Let_def)
      next
        case False
        obtain b where b: "explore P g ?cur (map snd (actions P)) ?rest = Inr b"
          using explore_no_error by blast
        from "1.IH"(2) [OF guard refl refl refl unsat refl False b] guard unsat False b
        show ?thesis
          by (simp add: search.simps [of P g os cs it] Let_def)
      qed
    qed
  qed
qed

lemma search_returns_node:
  assumes "search P g os cs it = Inr (Some plan)"
    and "\<forall>n\<in>set os. node_inv P start n"
  shows "\<exists>n. node_inv P start n \<and> plan = getPath n
           \<and> satisfies (node_state n) (Object_fromEntries (state g))"
  using assms
proof (induction P g os cs it rule: search.induct)
  case (1 P g os cs it)
  let ?cur = "hd (sort_key node_totalCost os)"
  let ?rest = "tl (sort_key node_totalCost os)"
  let ?key = "toString (node_state ?cur)"
  from "1.prems"(1) have guard: "os \<noteq> [] \<and> it < maxIterations"
    by (simp add: search.simps [of P g os cs it] split: if_splits)
  then have "sort_key node_totalCost os \<noteq> []"
    by (metis set_sort set_empty)
  then have "?cur \<in> set os" and "set ?rest \<subseteq> set os"
    by (metis hd_in_set set_sort, metis list.set_sel(2) set_sort subsetI)
  with "1.prems"(2) have cur: "node_inv P start ?cur" and rest: "\<forall>n\<in>set ?rest. node_inv P start n"
    by auto
  show ?case
  proof (cases "satisfies (node_state ?cur) (Object_fromEntries (state g))")
    case True
    with guard "1.prems"(1) have "plan = getPath ?cur"
      by (simp add: search.simps [of P g os cs it] Let_def)
    with cur True show ?thesis by blast
  next
    case unsat: False
    show ?thesis
    proof (cases "?key \<in> cs")
      case True
      with guard unsat "1.prems"(1) have "search P g ?rest cs (it + 1) = Inr (Some plan)"
        by (simp add: search.simps [of P g os cs it] Let_def)
      from "1.IH"(1) [OF guard refl refl refl unsat refl True this rest] show ?thesis .
    next
      case False
      obtain b where b: "explore P g ?cur (map snd (actions P)) ?rest = Inr b"
        using explore_no_error by blast
      with guard unsat False "1.prems"(1)
      have run: "search P g b (insert ?key cs) (it + 1) = Inr (Some plan)"
        by (simp add: search.simps [of P g os cs it] Let_def)
      have "\<forall>n\<in>set b. node_inv P start n"
        using explore_inv [OF b cur rest] by simp
      from "1.IH"(2) [OF guard refl refl refl unsat refl False b run this] show ?thesis .
    qed
  qed
qed

lemma generatePlan_returns_valid:
  assumes "generatePlan P start goal = Inr (Some plan)"
  shows "achieves P start goal plan"
proof -
  let ?root = "GOAPNode start None 0 (getDistance start goal) (getDistance start goal)"
  have "node_inv P start ?root"
    by (simp add: node_inv_def run_plan_def)
  then have "\<forall>n\<in>set [?root]. node_inv P start n"
    by simp
  moreover from assms have "search P goal [?root] {} 0 = Inr (Some plan)"
    by (simp add: generatePlan_def Let_def)
  ultimately obtain n where "node_inv P start n" "plan = getPath n"
      "satisfies (node_state n) (Object_fromEntries (state goal))"
    using search_returns_node by blast
  then show ?thesis
    by (simp add: node_inv_def achieves_def)
qed

lemma generatePlan_satisfied_start:
  assumes "satisfies start (Object_fromEntries (state goal))"
  shows "generatePlan P start goal = Inr (Some [])"
  using assms
  by (simp add: generatePlan_def Let_def search.simps maxIterations_def)

lemma generatePlan_no_error: "\<exists>r. generatePlan P start goal = Inr r"
  by (simp add: generatePlan_def Let_def search_no_error)

lemma scenarioA_plan:
  "generatePlan scenarioA empty_state deployed_goal = Inr (Some [act_create, act_code, act_deploy])"
  by code_simp

lemma scenarioB_plan:
  "generatePlan scenarioB empty_state deployed_goal
     = Inr (Some [act_create, act_code, act_quickdeploy])"
  by code_simp

text \<open>
  C1 (plan soundness). Whenever \<open>generatePlan\<close> returns a plan, applying the effects of
  its actions in order, starting from the start state, gives a state that satisfies the
  propositions of the goal state.
\<close>

theorem generatePlan_sound:
  assumes "generatePlan P start goal = Inr (Some plan)"
  shows "satisfies (foldl (\<lambda>s a. applyEffects s (effects a)) start plan)
           (Object_fromEntries (state goal))"
  using generatePlan_returns_valid [OF assms]
  by (simp add: achieves_def run_plan_def)

theorem generatePlan_sound_witness:
  "generatePlan scenarioA empty_state deployed_goal = Inr (Some [act_create, act_code, act_deploy])
   \<and> satisfies
       (foldl (\<lambda>s a. applyEffects s (effects a)) empty_state [act_create, act_code, act_deploy])
       (Object_fromEntries (state deployed_goal))"
  using generatePlan_sound [OF scenarioA_plan] scenarioA_plan by blast

lemma insert_everywhere_mem: "us @ x # vs \<in> set (insert_everywhere x (us @ vs))"
proof (induction us)
  case Nil
  then show ?case by (cases vs) simp_all
next
  case (Cons u us)
  then show ?case by simp
qed

lemma orders_complete:
  "distinct xs \<Longrightarrow> distinct ys \<Longrightarrow> set ys = set xs \<Longrightarrow> ys \<in> set (orders xs)"
proof (induction xs arbitrary: ys)
  case Nil
  then show ?case by simp
next
  case (Cons x xs)
  from Cons.prems(3) have "x \<in> set ys"
    by simp
  then obtain us vs where ys: "ys = us @ x # vs"
    by (auto dest: split_list)
  with Cons.prems have "distinct (us @ vs)" and "set (us @ vs) = set xs"
    by auto
  with Cons.IH Cons.prems(1) have "us @ vs \<in> set (orders xs)"
    by simp
  with ys show ?case
    using insert_everywhere_mem [of us x vs] by auto
qed

lemma scenarioB_orders:
  "list_all (\<lambda>order. generatePlan (register order) empty_state deployed_goal
      = Inr (Some [act_create, act_code, act_quickdeploy]))
     (orders [act_create, act_code, act_deploy, act_quickdeploy])"
  by code_simp

lemma scenario_actions_distinct: "distinct [act_create, act_code, act_deploy, act_quickdeploy]"
  by (simp add: act_create_def act_code_def act_deploy_def act_quickdeploy_def)

lemma scenarioB_any_order:
  assumes "distinct order"
    and "set order = {act_create, act_code, act_deploy, act_quickdeploy}"
  shows "generatePlan (register order) empty_state deployed_goal
           = Inr (Some [act_create, act_code, act_quickdeploy])"
proof -
  from assms have "order \<in> set (orders [act_create, act_code, act_deploy, act_quickdeploy])"
    using scenario_actions_distinct by (intro orders_complete) simp_all
  with scenarioB_orders show ?thesis
    by (simp only: list_all_iff)
qed

text \<open>
  C5 (Scenario B). With create, code, deploy and quickdeploy registered, in this or in
  any other order, the plan from the empty state to the goal \<open>deployed = true\<close> is
  create, code, quickdeploy, of total cost 5.
\<close>

theorem scenarioB_prefers_quickdeploy:
  "generatePlan scenarioB empty_state deployed_goal
     = Inr (Some [act_create, act_code, act_quickdeploy])
   \<and> totalCost (analyzePlan scenarioB [act_create, act_code, act_quickdeploy]) = 5
   \<and> map snd (actions scenarioB) = [act_create, act_code, act_deploy, act_quickdeploy]
   \<and> (\<forall>order. distinct order
          \<and> set order = {act_create, act_code, act_deploy, act_quickdeploy}
        \<longrightarrow> generatePlan (register order) empty_state deployed_goal
              = Inr (Some [act_create, act_code, act_quickdeploy]))"
proof -
  have "totalCost (analyzePlan scenarioB [act_create, act_code, act_quickdeploy]) = 5"
    by (simp add: analyzePlan_def act_create_def act_code_def act_quickdeploy_def)
  moreover have "map snd (actions scenarioB) = [act_create, act_code, act_deploy, act_quickdeploy]"
    by (simp add: scenarioB_def scenarioA_def addAction_def GOAPPlanner_new_def
        act_create_def act_code_def act_deploy_def act_quickdeploy_def)
  ultimately show ?thesis
    using scenarioB_plan scenarioB_any_order by simp
qed

theorem scenarioB_prefers_quickdeploy_witness:
  "distinct [act_quickdeploy, act_deploy, act_code, act_create]
   \<and> set [act_quickdeploy, act_deploy, act_code, act_create]
       = {act_create, act_code, act_deploy, act_quickdeploy}
   \<and> map snd (actions (register [act_quickdeploy, act_deploy, act_code, act_create]))
       = [act_quickdeploy, act_deploy, act_code, act_create]
   \<and> generatePlan (register [act_quickdeploy, act_deploy, act_code, act_create])
         empty_state deployed_goal
       = Inr (Some [act_create, act_code, act_quickdeploy])"
proof -
  have d: "distinct [act_quickdeploy, act_deploy, act_code, act_create]"
    and r: "map snd (actions (register [act_quickdeploy, act_deploy, act_code, act_create]))
       = [act_quickdeploy, act_deploy, act_code, act_create]"
    by (simp_all add: register_def addAction_def GOAPPlanner_new_def
        act_create_def act_code_def act_deploy_def act_quickdeploy_def)
  have s: "set [act_quickdeploy, act_deploy, act_code, act_create]
       = {act_create, act_code, act_deploy, act_quickdeploy}"
    by auto
  from scenarioB_prefers_quickdeploy d s r show ?thesis
    by blast
qed

text \<open>
  C9 (goal already satisfied). When the start state satisfies every proposition of the
  goal state, \<open>generatePlan\<close> returns the empty plan, whatever the repertoire.
\<close>

theorem generatePlan_goal_already_satisfied:
  assumes "satisfies start (Object_fromEntries (state goal))"
  shows "generatePlan P start goal = Inr (Some [])"
  using assms by (rule generatePlan_satisfied_start)

theorem generatePlan_goal_already_satisfied_witness:
  "satisfies deployed_goal (Object_fromEntries (state deployed_goal))
   \<and> generatePlan GOAPPlanner_new deployed_goal deployed_goal = Inr (Some [])"
proof -
  have h: "satisfies deployed_goal (Object_fromEntries (state deployed_goal))"
    by code_simp
  from generatePlan_goal_already_satisfied [OF h] h show ?thesis
    by blast
qed


section \<open>No plan\<close>





lemma scenarioA_achieves: "achieves scenarioA empty_state deployed_goal [act_create, act_code, act_deploy]"
  using generatePlan_returns_valid [OF scenarioA_plan] .




section \<open>Plan analysis\<close>





section \<open>The OODA loop\<close>

lemma orient_no_error: "\<exists>a. orient L obs random = Inr a"
proof -
  obtain r where "generatePlan (planner L) (worldState L) (goalState L) = Inr r"
    using generatePlan_no_error by blast
  then show ?thesis
    by (simp add: orient_def isGoalStillReachable_def Let_def)
qed

lemma orient_finished:
  assumes "orient L obs random = Inr a" and "currentPlan L = Some plan"
    and "currentStep L \<ge> length plan"
  shows "needsReplanning a"
  using assms
  by (auto simp: orient_def isPlanStillValid_def Let_def split: sum.splits)

lemma decide_never_complete:
  assumes "orient L obs random = Inr a" and "decide L a = Inr d"
  shows "d_action d \<noteq> ''complete''"
proof (cases "needsReplanning a")
  case True
  with assms(2) show ?thesis
    by (auto simp: decide_def)
next
  case False
  with assms(1) have "isPlanStillValid L"
    by (auto simp: orient_def Let_def split: sum.splits)
  then obtain plan where "currentPlan L = Some plan" "currentStep L < length plan"
    by (auto simp: isPlanStillValid_def split: option.splits if_splits)
  with False assms(2) show ?thesis
    by (auto simp: decide_def)
qed

lemma starting_plan: "generatePlan scenarioA empty_state exists_goal = Inr (Some [act_create])"
  by code_simp

lemma starting_step:
  "executeNextAction starting_loop ''2025-01-01T00:00:00.000Z'' = Inr finished_loop"
  by (simp add: executeNextAction_def starting_loop_def finished_loop_def Let_def execute_def
      executeCode_def apply_action_def isApplicable_def satisfies_def Object_entries_def
      act_create_def)

lemma finished_reachable:
  "generatePlan (planner finished_loop) (worldState finished_loop) (goalState finished_loop)
     = Inr (Some [])"
  by code_simp

lemma finished_no_anomaly: "anomalies (observe finished_loop) = []"
  by (simp add: observe_def detectAnomalies_def finished_loop_def)

lemma finished_orient:
  "orient finished_loop (observe finished_loop) 0.5
     = Inr \<lparr>stateChanged = False, planValid = False, goalReachable = True,
            needsReplanning = True\<rparr>"
  by (simp add: orient_def isGoalStillReachable_def finished_reachable Let_def
      hasStateChangedUnexpectedly_def isPlanStillValid_def finished_no_anomaly)
     (simp add: finished_loop_def)

text \<open>
  Once the steps of the plan are done and the goal holds, every cycle replans (to the
  empty plan): the loop is still monitoring after any number of cycles.
\<close>

lemma goal_reached_never_completes:
  assumes "monitoring L" and "currentPlan L = Some plan" and "length plan \<le> currentStep L"
    and "satisfies (worldState L) (Object_fromEntries (state (goalState L)))"
  shows "ooda_cycles L inputs = None"
  using assms
proof (induction inputs arbitrary: L plan)
  case Nil
  then show ?case by simp
next
  case (Cons i inputs)
  obtain random now where i: "i = (random, now)"
    by (cases i)
  have plan: "generatePlan (planner L) (worldState L) (goalState L) = Inr (Some [])"
    using Cons.prems(4) by (rule generatePlan_satisfied_start)
  let ?L' = "L\<lparr>currentPlan := Some [], currentStep := 0,
               executionHistory := executionHistory L @
                 [\<lparr>h_step = StepReplan, h_action = ''plan_updated'', h_result = None,
                   h_error = None, h_newPlan = Some [], h_timestamp = now\<rparr>]\<rparr>"
  from Cons.prems(2,3) have "\<not> isPlanStillValid L"
    by (simp add: isPlanStillValid_def)
  with plan have "cycle L random now = Inr ?L'"
    by (simp add: cycle_def orient_def isGoalStillReachable_def Let_def decide_def act_def
        replan_def)
  moreover have "ooda_cycles ?L' inputs = None"
    using Cons.prems(1,4) by (intro Cons.IH [of _ "[]"]) simp_all
  ultimately show ?case
    using Cons.prems(1) i by simp
qed

lemma finished_loop_never_completes: "ooda_cycles finished_loop inputs = None"
proof (rule goal_reached_never_completes)
  show "monitoring finished_loop" and "currentPlan finished_loop = Some [act_create]"
    and "length [act_create] \<le> currentStep finished_loop"
    by (simp_all add: finished_loop_def)
  show "satisfies (worldState finished_loop) (Object_fromEntries (state (goalState finished_loop)))"
    by code_simp
qed

text \<open>
  C6 (completion decision). The loop \<open>starting_loop\<close> runs the plan that
  \<open>generatePlan\<close> returns for it; executing its one action with success gives
  \<open>finished_loop\<close>, where the step index equals the plan length, the last history entry
  has no error and the state-change check reports no change. There
  \<open>isPlanStillValid\<close> is false, \<open>needsReplanning\<close> is true and \<open>decide\<close> returns the
  Replan decision, not Complete.
\<close>

theorem completed_plan_decides_replan:
  "generatePlan scenarioA empty_state exists_goal = Inr (Some [act_create])
   \<and> executeNextAction starting_loop ''2025-01-01T00:00:00.000Z'' = Inr finished_loop
   \<and> currentPlan finished_loop = Some [act_create]
   \<and> currentStep finished_loop = length [act_create]
   \<and> anomalies (observe finished_loop) = []
   \<and> \<not> hasStateChangedUnexpectedly finished_loop (observe finished_loop) 0.5
   \<and> \<not> isPlanStillValid finished_loop
   \<and> orient finished_loop (observe finished_loop) 0.5
       = Inr \<lparr>stateChanged = False, planValid = False, goalReachable = True,
              needsReplanning = True\<rparr>
   \<and> decide finished_loop
        \<lparr>stateChanged = False, planValid = False, goalReachable = True, needsReplanning = True\<rparr>
       = Inr \<lparr>d_action = ''replan'', d_reason = ''Conditions changed, replanning required''\<rparr>"
proof -
  have "currentPlan finished_loop = Some [act_create]"
    and "currentStep finished_loop = length [act_create]"
    and "\<not> hasStateChangedUnexpectedly finished_loop (observe finished_loop) 0.5"
    and "\<not> isPlanStillValid finished_loop"
    by (simp_all add: finished_loop_def hasStateChangedUnexpectedly_def isPlanStillValid_def)
  then show ?thesis
    using starting_plan starting_step finished_no_anomaly finished_orient
    by (simp add: decide_def)
qed

theorem completed_plan_decides_replan_witness:
  "\<exists>analysis d.
     orient finished_loop (observe finished_loop) 0.5 = Inr analysis
     \<and> \<not> stateChanged analysis \<and> \<not> planValid analysis \<and> goalReachable analysis
     \<and> needsReplanning analysis
     \<and> decide finished_loop analysis = Inr d \<and> d_action d = ''replan''"
  using completed_plan_decides_replan by simp

lemma execute_error_message: "execute a = Inl e \<Longrightarrow> message e \<noteq> []"
  by (auto simp: execute_def message_def split: if_splits)

lemma anomalies_after_failure:
  assumes "executionHistory L' = hs @ [entry]" and "h_error entry = Some m" and "m \<noteq> []"
  shows "anomalies (observe L') \<noteq> []"
  using assms by (simp add: observe_def detectAnomalies_def)

lemma orient_anomaly:
  assumes "anomalies obs \<noteq> []"
  shows "\<exists>a. orient L obs random = Inr a \<and> needsReplanning a"
proof -
  obtain r where "generatePlan (planner L) (worldState L) (goalState L) = Inr r"
    using generatePlan_no_error by blast
  with assms show ?thesis
    by (simp add: orient_def isGoalStillReachable_def Let_def)
qed

text \<open>
  C7 (execution failure). When \<open>execute\<close> of the action at the current step throws,
  \<open>executeNextAction\<close> returns normally with one more history entry, which carries
  the action name and the error message; the world state, the step index, the plan
  and the monitoring flag are unchanged; and in the next cycle, whatever the random
  number, \<open>orient\<close> sets \<open>needsReplanning\<close> and \<open>decide\<close> returns the Replan decision.
\<close>

theorem execution_failure_triggers_replan:
  assumes "currentPlan L = Some plan" and "currentStep L < length plan"
    and "execute (plan ! currentStep L) = Inl e"
  shows "\<exists>L'. executeNextAction L now = Inr L'
          \<and> executionHistory L' = executionHistory L @
                [\<lparr>h_step = StepIndex (currentStep L), h_action = name (plan ! currentStep L),
                  h_result = None, h_error = Some (message e), h_newPlan = None,
                  h_timestamp = now\<rparr>]
          \<and> worldState L' = worldState L \<and> currentStep L' = currentStep L
          \<and> currentPlan L' = currentPlan L \<and> monitoring L' = monitoring L
          \<and> (\<forall>random. \<exists>analysis d.
                orient L' (observe L') random = Inr analysis \<and> needsReplanning analysis
                \<and> decide L' analysis = Inr d \<and> d_action d = ''replan'')"
proof -
  let ?entry = "\<lparr>h_step = StepIndex (currentStep L), h_action = name (plan ! currentStep L),
                  h_result = None, h_error = Some (message e), h_newPlan = None,
                  h_timestamp = now\<rparr>"
  let ?L' = "L\<lparr>executionHistory := executionHistory L @ [?entry]\<rparr>"
  from assms have step: "executeNextAction L now = Inr ?L'"
    by (simp add: executeNextAction_def Let_def)
  have "message e \<noteq> []"
    using assms(3) by (rule execute_error_message)
  then have anom: "anomalies (observe ?L') \<noteq> []"
    using anomalies_after_failure [of ?L' "executionHistory L" ?entry "message e"] by simp
  have "\<exists>analysis d. orient ?L' (observe ?L') random = Inr analysis \<and> needsReplanning analysis
          \<and> decide ?L' analysis = Inr d \<and> d_action d = ''replan''" for random
  proof -
    obtain a where a: "orient ?L' (observe ?L') random = Inr a" "needsReplanning a"
      using orient_anomaly [OF anom] by blast
    then have "decide ?L' a = Inr \<lparr>d_action = ''replan'',
        d_reason = ''Conditions changed, replanning required''\<rparr>"
      by (simp add: decide_def)
    with a show ?thesis by simp
  qed
  with step show ?thesis
    by simp
qed

lemma failing_loop_throws:
  "execute ([act_unknown] ! currentStep failing_loop) = Inl (Error ''Unknown execution type: manual'')"
  by (simp add: failing_loop_def execute_def act_unknown_def)

theorem execution_failure_triggers_replan_witness:
  "currentPlan failing_loop = Some [act_unknown]
   \<and> currentStep failing_loop < length [act_unknown]
   \<and> execute ([act_unknown] ! currentStep failing_loop) = Inl (Error ''Unknown execution type: manual'')
   \<and> (\<exists>L'. executeNextAction failing_loop ''t1'' = Inr L'
          \<and> executionHistory L' =
                [\<lparr>h_step = StepIndex 0, h_action = ''launch'',
                  h_result = None, h_error = Some ''Unknown execution type: manual'', h_newPlan = None,
                  h_timestamp = ''t1''\<rparr>]
          \<and> worldState L' = empty_state \<and> currentStep L' = 0 \<and> monitoring L'
          \<and> (\<forall>random. \<exists>analysis d.
                orient L' (observe L') random = Inr analysis \<and> needsReplanning analysis
                \<and> decide L' analysis = Inr d \<and> d_action d = ''replan''))"
proof -
  have h1: "currentPlan failing_loop = Some [act_unknown]"
    and h2: "currentStep failing_loop < length [act_unknown]"
    by (simp_all add: failing_loop_def)
  note h3 = failing_loop_throws
  from execution_failure_triggers_replan [OF h1 h2 h3, of "''t1''"]
  obtain L' where L': "executeNextAction failing_loop ''t1'' = Inr L'"
      "executionHistory L' = executionHistory failing_loop @
                [\<lparr>h_step = StepIndex (currentStep failing_loop),
                  h_action = name ([act_unknown] ! currentStep failing_loop),
                  h_result = None, h_error = Some (message (Error ''Unknown execution type: manual'')),
                  h_newPlan = None, h_timestamp = ''t1''\<rparr>]"
      "worldState L' = worldState failing_loop" "currentStep L' = currentStep failing_loop"
      "monitoring L' = monitoring failing_loop"
      "\<forall>random. \<exists>analysis d.
                orient L' (observe L') random = Inr analysis \<and> needsReplanning analysis
                \<and> decide L' analysis = Inr d \<and> d_action d = ''replan''"
    by blast
  from L'(2-5) have "executionHistory L' =
                [\<lparr>h_step = StepIndex 0, h_action = ''launch'',
                  h_result = None, h_error = Some ''Unknown execution type: manual'', h_newPlan = None,
                  h_timestamp = ''t1''\<rparr>]"
      "worldState L' = empty_state" "currentStep L' = 0" "monitoring L'"
    by (simp_all add: failing_loop_def act_unknown_def message_def)
  with L'(1,6) h1 h2 h3 show ?thesis
    by blast
qed



section \<open>The search on the store\<close>

declare st_search.simps [simp del]

lemma frame_refl: "frame st st"
  by (simp add: frame_def)

lemma frame_trans: "frame st1 st2 \<Longrightarrow> frame st2 st3 \<Longrightarrow> frame st1 st3"
  by (auto simp: frame_def)

lemma st_get_eq: "st_get st r k = get (cells st r) k"
  by (simp add: st_get_def get_def)

lemma st_satisfies_eq: "st_satisfies st r c = satisfies (cells st r) c"
  by (simp add: st_satisfies_def satisfies_def st_get_eq)

lemma st_getDistance_eq: "st_getDistance st r g = getDistance (cells st r) (cells st g)"
  by (simp add: st_getDistance_def getDistance_def st_get_eq)

lemma st_toString_eq: "st_toString st r = toString (cells st r)"
  by (simp add: st_toString_def toString_def)

lemma st_isApplicable_eq: "st_isApplicable st a r = isApplicable a (cells st r)"
  by (simp add: st_isApplicable_def isApplicable_def st_satisfies_eq)

lemma st_set_cells:
  "cells (st_set st r k v) = (cells st)(r := set_entry (cells st r) k v)"
  by (simp add: st_set_def set_entry_def)

lemma st_set_next: "next_ref (st_set st r k v) = next_ref st"
  by (simp add: st_set_def)

lemma fold_st_set:
  "next_ref (foldl (\<lambda>st' (key, value). st_set st' r key value) st es) = next_ref st
   \<and> cells (foldl (\<lambda>st' (key, value). st_set st' r key value) st es)
       = (cells st)(r := foldl (\<lambda>s (key, value). set_entry s key value) (cells st r) es)"
proof (induction es arbitrary: st)
  case Nil
  then show ?case by simp
next
  case (Cons e es)
  obtain k v where e: "e = (k, v)" by (cases e)
  show ?case
    using Cons.IH [of "st_set st r k v"] e
    by (simp add: st_set_next st_set_cells fun_eq_iff)
qed

lemma st_applyEffects_spec:
  assumes "st_applyEffects st r effs = (st', r')"
  shows "r' = next_ref st" and "next_ref st' = Suc (next_ref st)"
    and "cells st' = (cells st)(next_ref st := applyEffects (cells st r) effs)"
proof -
  let ?st1 = "st\<lparr>cells := (cells st)(next_ref st := clone (cells st r)),
                   next_ref := Suc (next_ref st)\<rparr>"
  have c: "st_clone st r = (?st1, next_ref st)"
    by (simp add: st_clone_def st_new_def clone_def)
  with assms have r': "r' = next_ref st"
    and st': "st' = foldl (\<lambda>st' (key, value). st_set st' (next_ref st) key value) ?st1
                      (Object_entries effs)"
    by (auto simp: st_applyEffects_def)
  show "r' = next_ref st" by (rule r')
  show "next_ref st' = Suc (next_ref st)"
    using fold_st_set [of "next_ref st" ?st1 "Object_entries effs"] st' by simp
  show "cells st' = (cells st)(next_ref st := applyEffects (cells st r) effs)"
    using fold_st_set [of "next_ref st" ?st1 "Object_entries effs"] st'
    by (simp add: applyEffects_def)
qed

lemma st_applyEffects_frame: "st_applyEffects st r effs = (st', r') \<Longrightarrow> frame st st'"
  by (auto simp: frame_def dest: st_applyEffects_spec)

lemma st_explore_frame:
  "st_explore P g cur as st os = (st', res) \<Longrightarrow> frame st st'"
proof (induction as arbitrary: st os)
  case Nil
  then show ?case by (simp add: frame_refl)
next
  case (Cons a as)
  show ?case
  proof (cases "st_isApplicable st a (rn_state cur)")
    case False
    with Cons show ?thesis by simp
  next
    case True
    obtain st1 r1 where ap: "st_applyEffects st (rn_state cur) (effects a) = (st1, r1)"
      by (cases "st_applyEffects st (rn_state cur) (effects a)")
    then have f1: "frame st st1"
      by (rule st_applyEffects_frame)
    from True ap Cons.prems have "\<exists>os1. st_explore P g cur as st1 os1 = (st', res)"
      by (auto simp: st_apply_action_def Let_def split: if_splits)
    then have "frame st1 st'"
      using Cons.IH by blast
    with f1 show ?thesis
      by (rule frame_trans)
  qed
qed

lemma st_search_frame:
  "st_search P g st os cs it = (st', res) \<Longrightarrow> frame st st'"
proof (induction P g st os cs it rule: st_search.induct)
  case (1 P g st os cs it)
  let ?cur = "hd (sort_key rn_totalCost os)"
  let ?rest = "tl (sort_key rn_totalCost os)"
  let ?key = "st_toString st (rn_state ?cur)"
  show ?case
  proof (cases "os \<noteq> [] \<and> it < maxIterations")
    case False
    with "1.prems" show ?thesis
      by (auto simp: st_search.simps [of P g st os cs it] frame_refl)
  next
    case guard: True
    show ?thesis
    proof (cases "st_satisfies st (rn_state ?cur) (Object_fromEntries (state (cells st g)))")
      case True
      with guard "1.prems" show ?thesis
        by (auto simp: st_search.simps [of P g st os cs it] Let_def frame_refl)
    next
      case unsat: False
      show ?thesis
      proof (cases "?key \<in> cs")
        case True
        with guard unsat "1.prems" have "st_search P g st ?rest cs (it + 1) = (st', res)"
          by (simp add: st_search.simps [of P g st os cs it] Let_def)
        from "1.IH"(1) [OF guard refl refl refl unsat refl True this] show ?thesis .
      next
        case False
        obtain st1 r1 where ex: "st_explore P g ?cur (map snd (actions P)) st ?rest = (st1, r1)"
          by (cases "st_explore P g ?cur (map snd (actions P)) st ?rest")
        then have f1: "frame st st1"
          by (rule st_explore_frame)
        show ?thesis
        proof (cases r1)
          case (Inl e)
          with guard unsat False ex "1.prems" have "st' = st1"
            by (simp add: st_search.simps [of P g st os cs it] Let_def)
          with f1 show ?thesis by simp
        next
          case (Inr os1)
          with guard unsat False ex "1.prems"
          have run: "st_search P g st1 os1 (insert ?key cs) (it + 1) = (st', res)"
            by (simp add: st_search.simps [of P g st os cs it] Let_def)
          have "frame st1 st'"
            using "1.IH"(2) [OF guard refl refl refl unsat refl False ex [symmetric] Inr run] .
          with f1 show ?thesis
            by (rule frame_trans)
        qed
      qed
    qed
  qed
qed



lemma abs_node_frame:
  "frame st st' \<Longrightarrow> refs_below (next_ref st) n \<Longrightarrow> abs_node st' n = abs_node st n"
  by (induction st n rule: abs_node.induct) (auto simp: frame_def)

lemma refs_below_mono: "n \<le> m \<Longrightarrow> refs_below n x \<Longrightarrow> refs_below m x"
  by (induction n x rule: refs_below.induct) auto

lemma refs_below_state: "refs_below n x \<Longrightarrow> rn_state x < n"
  by (induction n x rule: refs_below.induct) auto

lemma abs_node_sel:
  "node_state (abs_node st n) = cells st (rn_state n)"
  "node_cost (abs_node st n) = rn_cost n"
  "node_totalCost (abs_node st n) = rn_totalCost n"
  by (induction st n rule: abs_node.induct) auto

lemma getPath_abs_node: "getPath (abs_node st n) = rn_getPath n"
  by (induction st n rule: abs_node.induct) auto

lemma map_insort_key:
  assumes "\<And>x. g (f x) = k x"
  shows "map f (insort_key k x ys) = insort_key g (f x) (map f ys)"
  by (induction ys) (simp_all add: assms)

lemma map_sort_key:
  assumes "\<And>x. g (f x) = k x"
  shows "map f (sort_key k xs) = sort_key g (map f xs)"
  by (induction xs) (simp_all add: map_insort_key [of g f k, OF assms])

lemma abs_sorted:
  "map (abs_node st) (sort_key rn_totalCost os) = sort_key node_totalCost (map (abs_node st) os)"
  by (rule map_sort_key) (simp add: abs_node_sel)

lemma st_explore_refines:
  assumes "st_explore P g cur as st os = (st', res)"
    and "g < next_ref st" and "refs_below (next_ref st) cur"
    and "\<forall>n\<in>set os. refs_below (next_ref st) n"
  shows "\<exists>os'. res = Inr os'
           \<and> explore P (cells st g) (abs_node st cur) as (map (abs_node st) os)
               = Inr (map (abs_node st') os')
           \<and> (\<forall>n\<in>set os'. refs_below (next_ref st') n)"
  using assms
proof (induction as arbitrary: st os)
  case Nil
  then show ?case by auto
next
  case (Cons a as)
  have app: "st_isApplicable st a (rn_state cur) = isApplicable a (node_state (abs_node st cur))"
    by (simp add: st_isApplicable_eq abs_node_sel)
  show ?case
  proof (cases "st_isApplicable st a (rn_state cur)")
    case False
    with Cons.prems(1) have "st_explore P g cur as st os = (st', res)"
      by simp
    from Cons.IH [OF this Cons.prems(2-4)] False app show ?thesis
      by simp
  next
    case True
    obtain st1 r1 where ap: "st_applyEffects st (rn_state cur) (effects a) = (st1, r1)"
      by (cases "st_applyEffects st (rn_state cur) (effects a)")
    note sp = st_applyEffects_spec [OF ap]
    have f1: "frame st st1"
      using ap by (rule st_applyEffects_frame)
    define newState where "newState = applyEffects (cells st (rn_state cur)) (effects a)"
    have c1: "cells st1 r1 = newState" and g1: "cells st1 g = cells st g"
      using sp Cons.prems(2) by (simp_all add: newState_def)
    have cur1: "abs_node st1 cur = abs_node st cur"
      using f1 Cons.prems(3) by (rule abs_node_frame)
    have os1: "map (abs_node st1) os = map (abs_node st) os"
      using f1 Cons.prems(4) by (simp add: abs_node_frame)
    have below1: "g < next_ref st1" "refs_below (next_ref st1) cur"
      "\<forall>n\<in>set os. refs_below (next_ref st1) n"
      using sp(2) Cons.prems(2-4) by (auto intro: refs_below_mono [of "next_ref st"])
    have pure_ap: "apply_action a (node_state (abs_node st cur)) = Inr newState"
      using True app by (simp add: apply_action_def abs_node_sel newState_def)
    show ?thesis
    proof (cases "rn_cost cur + cost a > maxSearchDepth P")
      case True
      with \<open>st_isApplicable st a (rn_state cur)\<close> ap Cons.prems(1)
      have "st_explore P g cur as st1 os = (st', res)"
        by (simp add: st_apply_action_def Let_def)
      from Cons.IH [OF this below1] True app \<open>st_isApplicable st a (rn_state cur)\<close> pure_ap
      show ?thesis
        by (simp add: Let_def abs_node_sel cur1 os1 g1)
    next
      case False
      define newNode where
        "newNode = RefNode r1 (Some (a, cur)) (rn_cost cur + cost a)
           (st_getDistance st1 r1 g) (rn_cost cur + cost a + st_getDistance st1 r1 g)"
      from False \<open>st_isApplicable st a (rn_state cur)\<close> ap Cons.prems(1)
      have run: "st_explore P g cur as st1 (os @ [newNode]) = (st', res)"
        by (simp add: st_apply_action_def Let_def newNode_def)
      have "refs_below (next_ref st1) newNode"
        using sp(1,2) below1(2) by (simp add: newNode_def)
      with below1(3) have "\<forall>n\<in>set (os @ [newNode]). refs_below (next_ref st1) n"
        by auto
      from Cons.IH [OF run below1(1,2) this]
      obtain os' where os': "res = Inr os'"
        "explore P (cells st1 g) (abs_node st1 cur) as (map (abs_node st1) (os @ [newNode]))
           = Inr (map (abs_node st') os')"
        "\<forall>n\<in>set os'. refs_below (next_ref st') n"
        by blast
      have "abs_node st1 newNode
          = GOAPNode newState (Some (a, abs_node st cur)) (node_cost (abs_node st cur) + cost a)
              (getDistance newState (cells st g))
              (node_cost (abs_node st cur) + cost a + getDistance newState (cells st g))"
        by (simp add: newNode_def c1 g1 cur1 st_getDistance_eq abs_node_sel)
      with os'(2) have "explore P (cells st g) (abs_node st cur) (a # as) (map (abs_node st) os)
           = Inr (map (abs_node st') os')"
        using False app \<open>st_isApplicable st a (rn_state cur)\<close> pure_ap
        by (simp add: Let_def abs_node_sel cur1 os1 g1)
      with os'(1,3) show ?thesis
        by blast
    qed
  qed
qed

lemma st_search_refines:
  assumes "st_search P g st os cs it = (st', res)"
    and "g < next_ref st" and "\<forall>n\<in>set os. refs_below (next_ref st) n"
  shows "res = search P (cells st g) (map (abs_node st) os) cs it"
  using assms
proof (induction P g st os cs it rule: st_search.induct)
  case (1 P g st os cs it)
  let ?cur = "hd (sort_key rn_totalCost os)"
  let ?rest = "tl (sort_key rn_totalCost os)"
  let ?key = "st_toString st (rn_state ?cur)"
  let ?aos = "map (abs_node st) os"
  show ?case
  proof (cases "os \<noteq> [] \<and> it < maxIterations")
    case False
    then have "search P (cells st g) ?aos cs it = Inr None"
      by (auto simp: search.simps [of P "cells st g" ?aos cs it])
    moreover from False "1.prems"(1) have "res = Inr None"
      by (auto simp: st_search.simps [of P g st os cs it])
    ultimately show ?thesis
      by simp
  next
    case guard: True
    then have ne: "sort_key rn_totalCost os \<noteq> []"
      by (metis set_sort set_empty)
    then have "?cur \<in> set os" and "set ?rest \<subseteq> set os"
      by (metis hd_in_set set_sort, metis list.set_sel(2) set_sort subsetI)
    with "1.prems"(3) have cur: "refs_below (next_ref st) ?cur"
      and rest: "\<forall>n\<in>set ?rest. refs_below (next_ref st) n"
      by auto
    have hd_abs: "hd (sort_key node_totalCost ?aos) = abs_node st ?cur"
      and tl_abs: "tl (sort_key node_totalCost ?aos) = map (abs_node st) ?rest"
      using ne by (simp_all add: abs_sorted [symmetric] hd_map map_tl)
    have sat: "st_satisfies st (rn_state ?cur) (Object_fromEntries (state (cells st g)))
        = satisfies (node_state (abs_node st ?cur)) (Object_fromEntries (state (cells st g)))"
      by (simp add: st_satisfies_eq abs_node_sel)
    have key: "?key = toString (node_state (abs_node st ?cur))"
      by (simp add: st_toString_eq abs_node_sel)
    have guard': "?aos \<noteq> [] \<and> it < maxIterations"
      using guard by simp
    show ?thesis
    proof (cases "st_satisfies st (rn_state ?cur) (Object_fromEntries (state (cells st g)))")
      case True
      with guard' sat have "search P (cells st g) ?aos cs it = Inr (Some (rn_getPath ?cur))"
        by (simp add: search.simps [of P "cells st g" ?aos cs it] Let_def hd_abs
            getPath_abs_node)
      moreover from True guard "1.prems"(1) have "res = Inr (Some (rn_getPath ?cur))"
        by (auto simp: st_search.simps [of P g st os cs it] Let_def)
      ultimately show ?thesis
        by simp
    next
      case unsat: False
      show ?thesis
      proof (cases "?key \<in> cs")
        case True
        with guard unsat "1.prems"(1) have run: "st_search P g st ?rest cs (it + 1) = (st', res)"
          by (simp add: st_search.simps [of P g st os cs it] Let_def)
        have "res = search P (cells st g) (map (abs_node st) ?rest) cs (it + 1)"
          using "1.IH"(1) [OF guard refl refl refl unsat refl True run "1.prems"(2) rest] .
        with guard' unsat True sat key show ?thesis
          by (simp add: search.simps [of P "cells st g" ?aos cs it] Let_def hd_abs tl_abs)
      next
        case False
        obtain st1 r1 where ex: "st_explore P g ?cur (map snd (actions P)) st ?rest = (st1, r1)"
          by (cases "st_explore P g ?cur (map snd (actions P)) st ?rest")
        from st_explore_refines [OF ex "1.prems"(2) cur rest]
        obtain os1 where os1: "r1 = Inr os1"
          "explore P (cells st g) (abs_node st ?cur) (map snd (actions P)) (map (abs_node st) ?rest)
             = Inr (map (abs_node st1) os1)"
          "\<forall>n\<in>set os1. refs_below (next_ref st1) n"
          by blast
        have f1: "frame st st1"
          using ex by (rule st_explore_frame)
        then have g1: "g < next_ref st1" "cells st1 g = cells st g"
          using "1.prems"(2) by (auto simp: frame_def)
        from guard unsat False ex os1(1) "1.prems"(1)
        have run: "st_search P g st1 os1 (insert ?key cs) (it + 1) = (st', res)"
          by (simp add: st_search.simps [of P g st os cs it] Let_def)
        have "res = search P (cells st1 g) (map (abs_node st1) os1) (insert ?key cs) (it + 1)"
          using "1.IH"(2) [OF guard refl refl refl unsat refl False ex [symmetric] os1(1) run
              g1(1) os1(3)] .
        with guard' unsat False sat key os1(2) g1(2) show ?thesis
          by (simp add: search.simps [of P "cells st g" ?aos cs it] Let_def hd_abs tl_abs)
      qed
    qed
  qed
qed

lemma st_generatePlan_refines:
  assumes "start < next_ref st" and "goal < next_ref st"
  shows "snd (st_generatePlan P st start goal)
           = generatePlan P (cells st start) (cells st goal)"
proof -
  let ?h = "st_getDistance st start goal"
  let ?root = "RefNode start None 0 ?h ?h"
  obtain st' res where r: "st_search P goal st [?root] {} 0 = (st', res)"
    by (cases "st_search P goal st [?root] {} 0")
  have "\<forall>n\<in>set [?root]. refs_below (next_ref st) n"
    using assms(1) by simp
  from st_search_refines [OF r assms(2) this] r show ?thesis
    by (simp add: st_generatePlan_def generatePlan_def Let_def st_getDistance_eq)
qed

lemma two_states_plan:
  "snd (st_generatePlan scenarioB two_states 0 1)
     = Inr (Some [act_create, act_code, act_quickdeploy])"
proof -
  have "(0::nat) < next_ref two_states" and "(1::nat) < next_ref two_states"
    by (simp_all add: two_states_def)
  then have "snd (st_generatePlan scenarioB two_states 0 1)
      = generatePlan scenarioB (cells two_states 0) (cells two_states 1)"
    by (rule st_generatePlan_refines)
  then show ?thesis
    by (simp add: two_states_def scenarioB_plan)
qed

text \<open>
  C10 (arguments not mutated). \<open>st_generatePlan\<close> leaves the start state and the goal
  state as they were; indeed every world state that was in the store before the call
  has the same Map after it (the search writes to the clones it allocates only).
\<close>

theorem generatePlan_leaves_arguments:
  assumes "st_generatePlan P st start goal = (st', res)"
    and "start < next_ref st" and "goal < next_ref st"
  shows "cells st' start = cells st start \<and> cells st' goal = cells st goal
         \<and> (\<forall>r. r < next_ref st \<longrightarrow> cells st' r = cells st r)"
proof -
  from assms(1) have "frame st st'"
    by (auto simp: st_generatePlan_def Let_def dest: st_search_frame)
  with assms(2,3) show ?thesis
    by (simp add: frame_def)
qed

theorem generatePlan_leaves_arguments_witness:
  "(0::nat) < next_ref two_states \<and> (1::nat) < next_ref two_states
   \<and> snd (st_generatePlan scenarioB two_states 0 1)
       = Inr (Some [act_create, act_code, act_quickdeploy])
   \<and> cells (fst (st_generatePlan scenarioB two_states 0 1)) 0 = empty_state
   \<and> cells (fst (st_generatePlan scenarioB two_states 0 1)) 1 = deployed_goal"
proof -
  have h: "st_generatePlan scenarioB two_states 0 1
      = (fst (st_generatePlan scenarioB two_states 0 1),
         snd (st_generatePlan scenarioB two_states 0 1))"
    by simp
  have h0: "(0::nat) < next_ref two_states" and h1: "(1::nat) < next_ref two_states"
    by (simp_all add: two_states_def)
  from generatePlan_leaves_arguments [OF h h0 h1] h0 h1 two_states_plan show ?thesis
    by (simp add: two_states_def)
qed

section \<open>\<^verbatim>\<open>set\<close> writes in place\<close>





section \<open>The serialization of a world state\<close>

















end
